theory Spec2Isabelle
  imports Main "HOL-Library.Word"
begin

section \<open>CircularBuffer.cpp: a ring of variable-sized blocks with lazy deletion\<close>

text \<open>
  The class \<open>CircularBuffer\<close> keeps a fixed region of \<open>bufSize\<close> bytes, two cursors into
  it, two byte counters, a doubly-linked list of \<open>BufBlock\<close> records in insertion order
  and a \<open>std::map\<close> from the caller's key to the record.

  Conventions of the embedding.
  \<^item> A \<open>byte*\<close> into the region is its offset from \<open>buf\<close>, a \<open>nat\<close>; \<open>buf\<close> itself is
    offset \<open>0\<close> and \<open>bufLastPlusOne\<close> is offset \<open>bufSize\<close>. Pointer addition is plain
    addition; every access through a pointer is bounds-checked by the model and an
    access outside the region is the value \<open>Inl MemFault\<close>.
  \<^item> \<open>uint_t\<close> is \<open>size_t\<close>, 64 bits wide on the platform named in the file header. Values
    are \<open>nat\<close>s below \<open>2 ^ 64\<close>; a subtraction the code guards by a comparison is written
    \<open>-\<close>, every other addition and subtraction goes through \<open>uadd\<close> and \<open>usub\<close>, which
    wrap around.
  \<^item> A \<open>BufBlock*\<close> is an address (a \<open>nat\<close>); the records live in \<open>blockHeap\<close>. The
    \<open>next\<close>/\<open>prev\<close> chain from \<open>bufBlockHead\<close> to \<open>bufBlockTail\<close> is kept as the list
    \<open>blockList\<close> of the addresses of its nodes, head first. Dereferencing an address
    that holds no record is \<open>Inl NullDeref\<close>.
  \<^item> The key of a block is the caller's source address (\<open>byte *block\<close>), a \<open>nat\<close>; the
    bytes found there at the time of the call are passed as a list, and \<open>blockSize\<close> is
    its length.
  \<^item> \<open>printf("%.*s", n, p)\<close> is the byte sink. It emits the bytes at \<open>p\<close> up to the first
    zero byte, and no more than \<open>n\<close> of them; a negative \<open>n\<close> is no limit. Reading on
    past the end of the region is \<open>Inl MemFault\<close>. An \<open>int\<close> has 32 bits: the cast to
    \<open>int\<close> and the subtraction on \<open>int\<close> keep the low 32 bits, read as two's complement.
  \<^item> \<open>new(BufBlock)\<close> returns the address \<open>nextBlock\<close>, a counter that only the model
    has; no address is handed out twice.
  \<^item> The fields of \<open>BufInfo\<close> carry the prefix \<open>bi\<close>: two of their names are names of
    members of the buffer.
\<close>

subsection \<open>Types\<close>

type_synonym byte = "8 word"

datatype ResultCode =
    RC_SUCCESS
  | RC_BLOCK_SIZE_EXCEEDS_FREE_SPACE
  | RC_BLOCK_ADD_FAILED_DUPLICATE
  | RC_BLOCK_ADD_FAILED_MAP_ERR
  | RC_BLOCK_NOT_FOUND
  | RC_BLOCK_MAP_ERASE_ERR

datatype fault = MemFault | NullDeref

record BufInfo =
  biBufSize :: nat
  biBufBytesFree :: nat
  biBufBytesUsed :: nat

record BufBlock =
  blockInBuf :: nat
  blockMapKey :: nat
  blockSize :: nat
  blockDeletePending :: bool

record CircularBuffer =
  buf :: "byte list"
  bufSize :: nat
  bufStart :: nat
  bufEnd :: nat
  bufBytesFree :: nat
  bufBytesDeletePending :: nat
  blockList :: "nat list"
  blockHeap :: "nat \<rightharpoonup> BufBlock"
  blockMap :: "nat \<rightharpoonup> nat"
  nextBlock :: nat

subsection \<open>Machine arithmetic and memory\<close>

definition uadd :: "nat \<Rightarrow> nat \<Rightarrow> nat" where
  "uadd a b = (a + b) mod 2 ^ 64"

definition usub :: "nat \<Rightarrow> nat \<Rightarrow> nat" where
  "usub a b = (if b \<le> a then a - b else (a + 2 ^ 64 - b) mod 2 ^ 64)"

text \<open>\<open>memmove(dst, src, n)\<close> with both pointers inside the region.\<close>

definition memmove_buf :: "nat \<Rightarrow> nat \<Rightarrow> nat \<Rightarrow> byte list \<Rightarrow> fault + byte list" where
  "memmove_buf dst src n mem =
     (if dst + n \<le> length mem \<and> src + n \<le> length mem
      then Inr (take dst mem @ take n (drop src mem) @ drop (dst + n) mem)
      else Inl MemFault)"

text \<open>\<open>memmove(dst, src, n)\<close> with \<open>src\<close> in the caller's block: \<open>bytes\<close> are the \<open>n\<close> bytes read.\<close>

definition memmove_in :: "nat \<Rightarrow> byte list \<Rightarrow> byte list \<Rightarrow> fault + byte list" where
  "memmove_in dst bytes mem =
     (if dst + length bytes \<le> length mem
      then Inr (take dst mem @ bytes @ drop (dst + length bytes) mem)
      else Inl MemFault)"

text \<open>A value as an \<open>int\<close>: the low 32 bits, read as two's complement.\<close>

definition toInt :: "int \<Rightarrow> int" where
  "toInt x = (x + 2 ^ 31) mod 2 ^ 32 - 2 ^ 31"

text \<open>
  The sink, \<open>printf("%.*s", precision, p)\<close>: \<open>str\<close> is what lies between offset \<open>p\<close> and
  the first zero byte of the region, or its end. When the precision is reached inside
  \<open>str\<close> that many bytes are emitted; otherwise \<open>printf\<close> reads on to the zero byte, and
  when the region has none from \<open>p\<close> on, the read leaves the region.
\<close>

definition emit :: "int \<Rightarrow> nat \<Rightarrow> byte list \<Rightarrow> fault + byte list" where
  "emit precision p mem =
     (let avail = drop p mem;
          str = takeWhile (\<lambda>c. c \<noteq> 0) avail
      in if 0 \<le> precision \<and> nat precision \<le> length str then Inr (take (nat precision) str)
         else if length str < length avail then Inr str
         else Inl MemFault)"

subsection \<open>Construction and statistics\<close>

text \<open>
  \<open>initBuf\<close>: the argument is the region \<open>malloc(bufSz)\<close> returned, with whatever bytes it
  holds; \<open>bufSz\<close> is its length. A failed \<open>malloc\<close> is the empty region.
\<close>

definition initBuf :: "byte list \<Rightarrow> CircularBuffer" where
  "initBuf region =
     \<lparr> buf = region, bufSize = length region, bufStart = 0, bufEnd = 0,
       bufBytesFree = length region, bufBytesDeletePending = 0,
       blockList = [], blockHeap = Map.empty, blockMap = Map.empty, nextBlock = 1 \<rparr>"

definition setBufInfo :: "CircularBuffer \<Rightarrow> BufInfo" where
  "setBufInfo s =
     \<lparr> biBufSize = bufSize s,
       biBufBytesFree = uadd (bufBytesFree s) (bufBytesDeletePending s),
       biBufBytesUsed = usub (usub (bufSize s) (bufBytesFree s)) (bufBytesDeletePending s) \<rparr>"

subsection \<open>The block list and the map\<close>

text \<open>
  \<open>removeBlockFromList\<close> unlinks a node, whether it is the head, the tail or in between:
  the list of addresses loses that address.
\<close>

definition removeBlockFromList :: "nat \<Rightarrow> CircularBuffer \<Rightarrow> CircularBuffer" where
  "removeBlockFromList p s = s\<lparr> blockList := removeAll p (blockList s) \<rparr>"

definition findBlockInMap :: "nat \<Rightarrow> CircularBuffer \<Rightarrow> ResultCode \<times> nat option" where
  "findBlockInMap block s =
     (case blockMap s block of
        None \<Rightarrow> (RC_BLOCK_NOT_FOUND, None)
      | Some p \<Rightarrow> (RC_SUCCESS, Some p))"

definition addBlockToMap :: "nat \<Rightarrow> nat \<Rightarrow> CircularBuffer \<Rightarrow> ResultCode \<times> CircularBuffer" where
  "addBlockToMap block p s =
     (case blockMap s block of
        None \<Rightarrow> (RC_SUCCESS, s\<lparr> blockMap := (blockMap s)(block \<mapsto> p) \<rparr>)
      | Some _ \<Rightarrow> (RC_BLOCK_ADD_FAILED_MAP_ERR, s))"

definition deleteBlockFromMap :: "nat \<Rightarrow> CircularBuffer \<Rightarrow> ResultCode \<times> CircularBuffer" where
  "deleteBlockFromMap block s =
     (case blockMap s block of
        None \<Rightarrow> (RC_BLOCK_MAP_ERASE_ERR, s)
      | Some _ \<Rightarrow> (RC_SUCCESS, s\<lparr> blockMap := (blockMap s)(block := None) \<rparr>))"

subsection \<open>Gap closing\<close>

text \<open>
  The body of the \<open>while (bytesToMove)\<close> loop of \<open>removeBlockFromBuf\<close>, which leaves by
  \<open>break\<close> on every path: it runs once when \<open>bytesToMove\<close> is not zero.
\<close>

definition moveBytes :: "nat \<Rightarrow> nat \<Rightarrow> nat \<Rightarrow> CircularBuffer \<Rightarrow> fault + CircularBuffer" where
  "moveBytes dst src bytesToMove s =
     (let case1 = (src > dst);
          len1 = usub (bufSize s) (if case1 then src else dst)
      in if len1 \<ge> bytesToMove then
           (case memmove_buf dst src bytesToMove (buf s) of
              Inl f \<Rightarrow> Inl f
            | Inr m \<Rightarrow> Inr (s\<lparr> buf := m, bufEnd := dst + bytesToMove \<rparr>))
         else
           (case memmove_buf dst src len1 (buf s) of
              Inl f \<Rightarrow> Inl f
            | Inr m1 \<Rightarrow>
                (let bytesToMove1 = bytesToMove - len1;
                     dst1 = dst + len1
                 in if case1 then
                      (let len2 = usub (bufSize s) dst1
                       in case memmove_buf dst1 0 len2 m1 of
                            Inl f \<Rightarrow> Inl f
                          | Inr m2 \<Rightarrow>
                              (let bytesToMove2 = usub bytesToMove1 len2;
                                   src2 = len2
                               in case memmove_buf 0 src2 bytesToMove2 m2 of
                                    Inl f \<Rightarrow> Inl f
                                  | Inr m3 \<Rightarrow> Inr (s\<lparr> buf := m3, bufEnd := bytesToMove2 \<rparr>)))
                    else
                      (case memmove_buf 0 (src + len1) bytesToMove1 m1 of
                         Inl f \<Rightarrow> Inl f
                       | Inr m3 \<Rightarrow> Inr (s\<lparr> buf := m3, bufEnd := bytesToMove1 \<rparr>)))))"

definition removeBlockFromBuf :: "nat \<Rightarrow> nat \<Rightarrow> CircularBuffer \<Rightarrow> fault + CircularBuffer" where
  "removeBlockFromBuf blk blksz s =
     (let dst = blk;
          src0 = blk + blksz;
          src = (if src0 \<ge> bufSize s then src0 - bufSize s else src0);
          bytesToMove0 = (if src \<le> bufEnd s then bufEnd s - src
                          else uadd (usub (bufSize s) src) (bufEnd s))
      in if blockList s = [] then Inl NullDeref
         else case (blockHeap s (hd (blockList s)), blockHeap s (last (blockList s))) of
            (Some headBlock, Some tailBlock) \<Rightarrow>
              (let atHead = (blk = blockInBuf headBlock);
                   atTail = (blk = blockInBuf tailBlock);
                   s1 = (if atHead then s\<lparr> bufStart := src \<rparr> else s);
                   s2 = (if atTail then s1\<lparr> bufEnd := dst \<rparr> else s1);
                   bytesToMove = (if atHead \<or> atTail then 0 else bytesToMove0)
               in case (if bytesToMove = 0 then Inr s2 else moveBytes dst src bytesToMove s2) of
                    Inl f \<Rightarrow> Inl f
                  | Inr s3 \<Rightarrow>
                      Inr (s3\<lparr> bufBytesDeletePending := usub (bufBytesDeletePending s3) blksz,
                               bufBytesFree := uadd (bufBytesFree s3) blksz \<rparr>))
          | _ \<Rightarrow> Inl NullDeref)"

subsection \<open>Compaction\<close>

text \<open>
  \<open>updateBufBlockList\<close>: the walk from the head, \<open>block\<close> being the running address.
\<close>

fun updateLoop :: "nat \<Rightarrow> nat \<Rightarrow> nat list \<Rightarrow> (nat \<rightharpoonup> BufBlock) \<Rightarrow> fault + (nat \<rightharpoonup> BufBlock)" where
  "updateLoop lpo block [] h = Inr h"
| "updateLoop lpo block (p # ps) h =
     (case h p of
        None \<Rightarrow> Inl NullDeref
      | Some b \<Rightarrow>
          (let block1 = block + blockSize b;
               block2 = (if block1 \<ge> lpo then block1 - lpo else block1)
           in updateLoop lpo block2 ps (h(p \<mapsto> b\<lparr> blockInBuf := block \<rparr>))))"

definition updateBufBlockList :: "CircularBuffer \<Rightarrow> fault + CircularBuffer" where
  "updateBufBlockList s =
     (case updateLoop (bufSize s) (bufStart s) (blockList s) (blockHeap s) of
        Inl f \<Rightarrow> Inl f
      | Inr h \<Rightarrow> Inr (s\<lparr> blockHeap := h \<rparr>))"

text \<open>
  The loop of \<open>compactBuf\<close> walks \<open>prev\<close> links from the tail. The nodes still to visit are
  the argument list, newest first; unlinking the current node leaves the \<open>prev\<close> chain of
  the older ones as it was. \<open>free(bufBlock)\<close> removes the record from the heap.
\<close>

fun compactLoop :: "nat list \<Rightarrow> CircularBuffer \<Rightarrow> fault + CircularBuffer" where
  "compactLoop [] s = Inr s"
| "compactLoop (p # ps) s =
     (case blockHeap s p of
        None \<Rightarrow> Inl NullDeref
      | Some b \<Rightarrow>
          if blockDeletePending b = False then compactLoop ps s
          else
            (case removeBlockFromBuf (blockInBuf b) (blockSize b) s of
               Inl f \<Rightarrow> Inl f
             | Inr s1 \<Rightarrow>
                 (let s2 = removeBlockFromList p s1;
                      s3 = snd (deleteBlockFromMap (blockMapKey b) s2);
                      s4 = s3\<lparr> blockHeap := (blockHeap s3)(p := None) \<rparr>
                  in compactLoop ps s4)))"

definition compactBuf :: "CircularBuffer \<Rightarrow> fault + CircularBuffer" where
  "compactBuf s =
     (if bufBytesDeletePending s = 0 then Inr s
      else case compactLoop (rev (blockList s)) s of
             Inl f \<Rightarrow> Inl f
           | Inr s1 \<Rightarrow> updateBufBlockList s1)"

definition checkSize :: "nat \<Rightarrow> CircularBuffer \<Rightarrow> fault + (ResultCode \<times> CircularBuffer)" where
  "checkSize blkSize s =
     (if blkSize \<le> bufBytesFree s then Inr (RC_SUCCESS, s)
      else if blkSize > uadd (bufBytesFree s) (bufBytesDeletePending s)
      then Inr (RC_BLOCK_SIZE_EXCEEDS_FREE_SPACE, s)
      else case compactBuf s of
             Inl f \<Rightarrow> Inl f
           | Inr s1 \<Rightarrow>
               Inr (if blkSize \<le> bufBytesFree s1 then RC_SUCCESS
                    else RC_BLOCK_SIZE_EXCEEDS_FREE_SPACE, s1))"

subsection \<open>Append, add, delete, print\<close>

definition appendBlockToBuf :: "byte list \<Rightarrow> CircularBuffer \<Rightarrow> fault + (ResultCode \<times> CircularBuffer)" where
  "appendBlockToBuf block s0 =
     (case checkSize (length block) s0 of
        Inl f \<Rightarrow> Inl f
      | Inr (rc, s) \<Rightarrow>
          if rc \<noteq> RC_SUCCESS then Inr (rc, s)
          else
            (let len1 = usub (bufSize s) (bufEnd s);
                 split = (bufEnd s > bufStart s \<and> length block > len1)
             in case (if split
                      then (case memmove_in (bufEnd s) (take len1 block) (buf s) of
                              Inl f \<Rightarrow> Inl f
                            | Inr m \<Rightarrow> Inr (length block - len1, len1, s\<lparr> buf := m, bufEnd := 0 \<rparr>))
                      else Inr (length block, 0, s)) of
                  Inl f \<Rightarrow> Inl f
                | Inr (len, src, s1) \<Rightarrow>
                    (case memmove_in (bufEnd s1) (take len (drop src block)) (buf s1) of
                       Inl f \<Rightarrow> Inl f
                     | Inr m \<Rightarrow>
                         (let e = bufEnd s1 + len;
                              e1 = (if e \<ge> bufSize s1 then 0 else e)
                          in Inr (RC_SUCCESS,
                                  s1\<lparr> buf := m, bufEnd := e1,
                                      bufBytesFree := usub (bufBytesFree s1) (length block) \<rparr>)))))"

text \<open>
  The part of \<open>addBlockToBuf\<close> after the duplicate check: \<open>blockAddrInBuf\<close> is read from
  \<open>bufEnd\<close> before \<open>appendBlockToBuf\<close> is called.
\<close>

definition addBlockTail :: "nat \<Rightarrow> byte list \<Rightarrow> CircularBuffer \<Rightarrow> fault + (ResultCode \<times> CircularBuffer \<times> BufInfo)" where
  "addBlockTail block bytes s =
     (let blockAddrInBuf = bufEnd s
      in case appendBlockToBuf bytes s of
           Inl f \<Rightarrow> Inl f
         | Inr (rc, s1) \<Rightarrow>
             if rc = RC_SUCCESS then
               (let p = nextBlock s1;
                    bufBlock = \<lparr> blockInBuf = blockAddrInBuf, blockMapKey = block,
                                 blockSize = length bytes, blockDeletePending = False \<rparr>;
                    s2 = s1\<lparr> blockList := blockList s1 @ [p],
                             blockHeap := (blockHeap s1)(p \<mapsto> bufBlock),
                             nextBlock := Suc p \<rparr>;
                    (rc1, s3) = addBlockToMap block p s2
                in Inr (rc1, s3, setBufInfo s3))
             else Inr (rc, s1, setBufInfo s1))"

definition addBlockToBuf :: "nat \<Rightarrow> byte list \<Rightarrow> CircularBuffer \<Rightarrow> fault + (ResultCode \<times> CircularBuffer \<times> BufInfo)" where
  "addBlockToBuf block bytes s =
     (case findBlockInMap block s of
        (RC_SUCCESS, Some p) \<Rightarrow>
          (case blockHeap s p of
             None \<Rightarrow> Inl NullDeref
           | Some bufBlock \<Rightarrow>
               if blockDeletePending bufBlock then
                 (case compactBuf s of
                    Inl f \<Rightarrow> Inl f
                  | Inr s1 \<Rightarrow> addBlockTail block bytes s1)
               else Inr (RC_BLOCK_ADD_FAILED_DUPLICATE, s, setBufInfo s))
      | _ \<Rightarrow> addBlockTail block bytes s)"

definition deleteBlockFromBuf :: "nat \<Rightarrow> CircularBuffer \<Rightarrow> fault + (ResultCode \<times> CircularBuffer \<times> BufInfo)" where
  "deleteBlockFromBuf block s =
     (case findBlockInMap block s of
        (RC_SUCCESS, Some p) \<Rightarrow>
          (case blockHeap s p of
             None \<Rightarrow> Inl NullDeref
           | Some bufBlock \<Rightarrow>
               (let s1 = s\<lparr> bufBytesDeletePending :=
                              uadd (bufBytesDeletePending s) (blockSize bufBlock),
                            blockHeap := (blockHeap s)(p \<mapsto> bufBlock\<lparr> blockDeletePending := True \<rparr>) \<rparr>
                in Inr (RC_SUCCESS, s1, setBufInfo s1)))
      | _ \<Rightarrow> Inr (RC_SUCCESS, s, setBufInfo s))"

definition printBuf :: "CircularBuffer \<Rightarrow> fault + (byte list \<times> CircularBuffer)" where
  "printBuf s0 =
     (case compactBuf s0 of
        Inl f \<Rightarrow> Inl f
      | Inr s \<Rightarrow>
          (let bytesToPrint = usub (bufSize s) (bufBytesFree s);
               front = usub (bufSize s) (bufStart s)
           in if bytesToPrint \<le> front then
                (let precision = toInt (int bytesToPrint)
                 in case emit precision (bufStart s) (buf s) of
                      Inl f \<Rightarrow> Inl f
                    | Inr out \<Rightarrow> Inr (out, s))
              else
                (let precision = toInt (int front)
                 in case emit precision (bufStart s) (buf s) of
                      Inl f \<Rightarrow> Inl f
                    | Inr out1 \<Rightarrow>
                        (let precision2 = toInt (toInt (int bytesToPrint) - precision)
                         in case emit precision2 0 (buf s) of
                              Inl f \<Rightarrow> Inl f
                            | Inr out2 \<Rightarrow> Inr (out1 @ out2, s)))))"

subsection \<open>Sequences of calls\<close>

datatype call = Add nat "byte list" | Delete nat | Dump

datatype outcome = Returned ResultCode BufInfo | Printed "byte list"

fun exec :: "call \<Rightarrow> CircularBuffer \<Rightarrow> fault + (outcome \<times> CircularBuffer)" where
  "exec (Add k bytes) s =
     (case addBlockToBuf k bytes s of
        Inl f \<Rightarrow> Inl f
      | Inr (rc, s1, bi) \<Rightarrow> Inr (Returned rc bi, s1))"
| "exec (Delete k) s =
     (case deleteBlockFromBuf k s of
        Inl f \<Rightarrow> Inl f
      | Inr (rc, s1, bi) \<Rightarrow> Inr (Returned rc bi, s1))"
| "exec Dump s =
     (case printBuf s of
        Inl f \<Rightarrow> Inl f
      | Inr (out, s1) \<Rightarrow> Inr (Printed out, s1))"

fun run :: "call list \<Rightarrow> CircularBuffer \<Rightarrow> fault + (outcome list \<times> CircularBuffer)" where
  "run [] s = Inr ([], s)"
| "run (c # cs) s =
     (case exec c s of
        Inl f \<Rightarrow> Inl f
      | Inr (out, s1) \<Rightarrow>
          (case run cs s1 of
             Inl f \<Rightarrow> Inl f
           | Inr (outs, s2) \<Rightarrow> Inr (out # outs, s2)))"

subsection \<open>Observations on a state\<close>

text \<open>
  The bytes held by blocks that are on the list and not marked delete-pending, the four
  quantities of the accounting equation, and the record the map holds for a key.
\<close>

definition usedBytes :: "CircularBuffer \<Rightarrow> nat" where
  "usedBytes s =
     sum_list (map (\<lambda>p. case blockHeap s p of
                            None \<Rightarrow> 0
                          | Some b \<Rightarrow> if blockDeletePending b then 0 else blockSize b)
                   (blockList s))"

definition counters :: "CircularBuffer \<Rightarrow> nat \<times> nat \<times> nat \<times> nat" where
  "counters s = (bufSize s, bufBytesFree s, bufBytesDeletePending s, usedBytes s)"

definition recordOf :: "nat \<Rightarrow> CircularBuffer \<Rightarrow> BufBlock option" where
  "recordOf key s = (case blockMap s key of None \<Rightarrow> None | Some p \<Rightarrow> blockHeap s p)"

definition recordsOnList :: "CircularBuffer \<Rightarrow> BufBlock option list" where
  "recordsOnList s = map (blockHeap s) (blockList s)"

section \<open>Properties\<close>

lemmas call_defs =
  addBlockToBuf_def addBlockTail_def appendBlockToBuf_def checkSize_def compactBuf_def
  deleteBlockFromBuf_def printBuf_def updateBufBlockList_def removeBlockFromBuf_def
  moveBytes_def removeBlockFromList_def findBlockInMap_def addBlockToMap_def
  deleteBlockFromMap_def setBufInfo_def initBuf_def memmove_buf_def memmove_in_def emit_def
  toInt_def
  uadd_def usub_def Let_def

lemmas observe_defs = counters_def usedBytes_def recordOf_def recordsOnList_def

lemma uadd_small: "a + b < 2 ^ 64 \<Longrightarrow> uadd a b = a + b"
  by (simp add: uadd_def)

lemma usub_le: "b \<le> a \<Longrightarrow> usub a b = a - b"
  by (simp add: usub_def)

lemma run_append:
  "run (cs @ ds) s =
     (case run cs s of
        Inl f \<Rightarrow> Inl f
      | Inr (outs1, s1) \<Rightarrow>
          (case run ds s1 of
             Inl f \<Rightarrow> Inl f
           | Inr (outs2, s2) \<Rightarrow> Inr (outs1 @ outs2, s2)))"
  by (induction cs arbitrary: s) (auto split: sum.splits)

subsection \<open>Accounting\<close>

text \<open>
  C1. The accounting equation \<open>capacity = freeBytes + pendingDeleteBytes + usedBytes\<close> does
  not hold in every reachable state. In a region of 4 bytes, after adding a block of 2
  bytes under key 100 and deleting key 100 twice, the capacity is 4, \<open>bufBytesFree\<close> is
  2, \<open>bufBytesDeletePending\<close> is 4 and no byte is used: the second delete adds the
  block's size to \<open>bufBytesDeletePending\<close> again. The statistics returned by the second
  delete report 6 free bytes of 4 and a used count that has wrapped below zero.
\<close>

theorem C1_repeated_delete_breaks_accounting:
  "map_sum id (\<lambda>(outs, s). (counters s, last outs))
      (run [Add 100 [1, 2], Delete 100, Delete 100] (initBuf [0, 0, 0, 0]))
   = Inr ((4, 2, 4, 0),
          Returned RC_SUCCESS
            \<lparr> biBufSize = 4, biBufBytesFree = 6, biBufBytesUsed = 2 ^ 64 - 2 \<rparr>)
   \<and> (4::nat) \<noteq> 2 + 4 + 0"
  by (simp add: call_defs observe_defs)

subsection \<open>Delete\<close>

text \<open>
  C2. For a key that is not in the map, \<open>deleteBlockFromBuf\<close> changes nothing and reports
  the statistics of the unchanged state, but the code it returns is \<open>RC_SUCCESS\<close>:
  the \<open>RC_BLOCK_NOT_FOUND\<close> that \<open>findBlockInMap\<close> produced is dropped.
\<close>

theorem C2_delete_absent_key_returns_success:
  assumes "blockMap s key = None"
  shows "fst (findBlockInMap key s) = RC_BLOCK_NOT_FOUND
         \<and> deleteBlockFromBuf key s = Inr (RC_SUCCESS, s, setBufInfo s)"
  using assms by (simp add: deleteBlockFromBuf_def findBlockInMap_def)

theorem C2_delete_absent_key_witness:
  "blockMap (initBuf [0, 0]) 100 = None
   \<and> fst (findBlockInMap 100 (initBuf [0, 0])) = RC_BLOCK_NOT_FOUND
   \<and> deleteBlockFromBuf 100 (initBuf [0, 0])
       = Inr (RC_SUCCESS, initBuf [0, 0],
              \<lparr> biBufSize = 2, biBufBytesFree = 2, biBufBytesUsed = 0 \<rparr>)"
proof -
  have absent: "blockMap (initBuf [0, 0]) 100 = None"
    by (simp add: initBuf_def)
  have info: "setBufInfo (initBuf [0, 0])
                = \<lparr> biBufSize = 2, biBufBytesFree = 2, biBufBytesUsed = 0 \<rparr>"
    by (simp add: setBufInfo_def initBuf_def uadd_def usub_def)
  from C2_delete_absent_key_returns_success [OF absent] absent info
  show ?thesis by simp
qed

text \<open>
  C10. Deleting a key whose record is already marked delete-pending returns
  \<open>RC_SUCCESS\<close> with the statistics of the new state, and the new state differs from
  the old one in \<open>bufBytesDeletePending\<close> only, which grows by the block's size once
  more: the record, the region, the cursors and \<open>bufBytesFree\<close> are as before.
\<close>

theorem C10_repeated_delete_counts_again:
  assumes "blockMap s key = Some p"
    and "blockHeap s p = Some b"
    and "blockDeletePending b"
    and "bufBytesDeletePending s + blockSize b < 2 ^ 64"
  shows "deleteBlockFromBuf key s
         = Inr (RC_SUCCESS,
                s\<lparr> bufBytesDeletePending := bufBytesDeletePending s + blockSize b \<rparr>,
                setBufInfo (s\<lparr> bufBytesDeletePending := bufBytesDeletePending s + blockSize b \<rparr>))"
proof -
  from assms(3) have same: "b\<lparr> blockDeletePending := True \<rparr> = b"
    by simp
  from assms(2) have heap: "(blockHeap s)(p \<mapsto> b) = blockHeap s"
    by (rule map_upd_triv)
  from assms(4) have add: "uadd (bufBytesDeletePending s) (blockSize b)
                             = bufBytesDeletePending s + blockSize b"
    by (rule uadd_small)
  show ?thesis
    using assms(1,2) by (simp add: deleteBlockFromBuf_def findBlockInMap_def same heap add Let_def)
qed

theorem C10_repeated_delete_witness:
  "map_sum id (\<lambda>(outs, s). (counters s, recordOf 100 s, buf s))
      (run [Add 100 [1, 2], Delete 100] (initBuf [0, 0, 0, 0]))
   = Inr ((4, 2, 2, 0),
          Some \<lparr> blockInBuf = 0, blockMapKey = 100, blockSize = 2, blockDeletePending = True \<rparr>,
          [1, 2, 0, 0])
   \<and> map_sum id (\<lambda>(outs, s). (last outs, counters s, recordOf 100 s, buf s))
      (run ([Add 100 [1, 2], Delete 100] @ [Delete 100]) (initBuf [0, 0, 0, 0]))
   = Inr (Returned RC_SUCCESS \<lparr> biBufSize = 4, biBufBytesFree = 6, biBufBytesUsed = 2 ^ 64 - 2 \<rparr>,
          (4, 2, 4, 0),
          Some \<lparr> blockInBuf = 0, blockMapKey = 100, blockSize = 2, blockDeletePending = True \<rparr>,
          [1, 2, 0, 0])"
proof -
  define b where "b = \<lparr> blockInBuf = 0, blockMapKey = 100, blockSize = 2, blockDeletePending = True \<rparr>"
  define s where "s = \<lparr> buf = [1, 2, 0, 0], bufSize = 4, bufStart = 0, bufEnd = 2,
       bufBytesFree = 2, bufBytesDeletePending = 2,
       blockList = [1], blockHeap = [1 \<mapsto> b], blockMap = [100 \<mapsto> 1], nextBlock = 2 \<rparr>"
  have first: "run [Add 100 [1, 2], Delete 100] (initBuf [0, 0, 0, 0])
                 = Inr ([Returned RC_SUCCESS \<lparr> biBufSize = 4, biBufBytesFree = 2, biBufBytesUsed = 2 \<rparr>,
                         Returned RC_SUCCESS \<lparr> biBufSize = 4, biBufBytesFree = 4, biBufBytesUsed = 0 \<rparr>], s)"
    by (simp add: call_defs s_def b_def) (simp add: numeral_2_eq_2)
  have again: "deleteBlockFromBuf 100 s
                 = Inr (RC_SUCCESS, s\<lparr> bufBytesDeletePending := bufBytesDeletePending s + blockSize b \<rparr>,
                        setBufInfo (s\<lparr> bufBytesDeletePending := bufBytesDeletePending s + blockSize b \<rparr>))"
    by (rule C10_repeated_delete_counts_again [where p = 1]) (simp_all add: s_def b_def)
  have obs: "counters s = (4, 2, 2, 0)" "recordOf 100 s = Some b" "buf s = [1, 2, 0, 0]"
    "counters (s\<lparr> bufBytesDeletePending := bufBytesDeletePending s + blockSize b \<rparr>) = (4, 2, 4, 0)"
    "setBufInfo (s\<lparr> bufBytesDeletePending := bufBytesDeletePending s + blockSize b \<rparr>)
       = \<lparr> biBufSize = 4, biBufBytesFree = 6, biBufBytesUsed = 2 ^ 64 - 2 \<rparr>"
    by (simp_all add: observe_defs s_def b_def setBufInfo_def uadd_def usub_def)
  have rec: "recordOf 100 (s\<lparr> bufBytesDeletePending := bufBytesDeletePending s + blockSize b \<rparr>) = Some b"
    using obs(2) by (simp add: recordOf_def split: option.splits)
  show ?thesis
    unfolding run_append first
    by (simp add: again obs rec) (simp add: b_def)
qed

subsection \<open>Admission\<close>



subsection \<open>Add\<close>

lemma addBlockToBuf_fresh:
  assumes "length d1 \<le> length region"
  shows "addBlockToBuf key d1 (initBuf region)
         = Inr (RC_SUCCESS,
                \<lparr> buf = d1 @ drop (length d1) region, bufSize = length region, bufStart = 0,
                  bufEnd = (if length d1 = length region then 0 else length d1),
                  bufBytesFree = length region - length d1, bufBytesDeletePending = 0,
                  blockList = [1],
                  blockHeap = [1 \<mapsto> \<lparr> blockInBuf = 0, blockMapKey = key, blockSize = length d1,
                                          blockDeletePending = False \<rparr>],
                  blockMap = [key \<mapsto> 1], nextBlock = 2 \<rparr>,
                \<lparr> biBufSize = length region,
                  biBufBytesFree = uadd (length region - length d1) 0,
                  biBufBytesUsed = usub (usub (length region) (length region - length d1)) 0 \<rparr>)"
  using assms
  by (auto simp: addBlockToBuf_def addBlockTail_def appendBlockToBuf_def checkSize_def
      findBlockInMap_def addBlockToMap_def setBufInfo_def initBuf_def memmove_in_def
      usub_le Let_def numeral_2_eq_2)

lemma toInt_small: "0 \<le> x \<Longrightarrow> x < 2 ^ 31 \<Longrightarrow> toInt x = x"
  by (simp add: toInt_def)

lemma emit_prefix:
  assumes "0 \<notin> set d"
  shows "emit (int (length d)) 0 (d @ rest) = Inr d"
proof -
  from assms have "takeWhile (\<lambda>c. c \<noteq> 0) (d @ rest) = d @ takeWhile (\<lambda>c. c \<noteq> 0) rest"
    by (intro takeWhile_append2) auto
  then show ?thesis
    by (simp add: emit_def)
qed

text \<open>
  The scenario of the specification's duplicate test on a fresh buffer, for any first
  block of text that fits: the first add succeeds, the second add of the key is
  rejected as a duplicate, and the dump is the first block.
\<close>

lemma duplicate_rejection_on_fresh_buffer:
  assumes "length d1 \<le> length region" and "0 \<notin> set d1" and "length region < 2 ^ 31"
  shows "map_sum id (map (\<lambda>out. case out of Returned rc bi \<Rightarrow> Inl rc | Printed bs \<Rightarrow> Inr bs) \<circ> fst)
           (run [Add key d1, Add key d2, Dump] (initBuf region))
         = Inr [Inl RC_SUCCESS, Inl RC_BLOCK_ADD_FAILED_DUPLICATE, Inr d1]"
proof -
  from assms(1,3) have int: "toInt (int (length d1)) = int (length d1)"
    by (intro toInt_small) auto
  from assms(1) have count: "usub (length region) (length region - length d1) = length d1"
    by (simp add: usub_le)
  have e1: "emit (toInt (int (length d1))) 0 (d1 @ drop (length d1) region) = Inr d1"
    unfolding int by (rule emit_prefix [OF assms(2)])
  have e2: "emit (toInt (int (length region))) 0 d1 = Inr d1" if "length d1 = length region"
    using e1 that by simp
  show ?thesis
    using assms(1)
    by (simp add: addBlockToBuf_fresh)
       (simp add: addBlockToBuf_def findBlockInMap_def printBuf_def compactBuf_def
          usub_le count e1 e2 Let_def)
qed

text \<open>
  When the record the map holds for the key is not delete-pending, adding the key again
  returns \<open>RC_BLOCK_ADD_FAILED_DUPLICATE\<close> together with the statistics of the current
  state, and the state is the one before the call.
\<close>

lemma duplicate_add_rejected:
  assumes "blockMap s key = Some p"
    and "blockHeap s p = Some b"
    and "blockDeletePending b = False"
  shows "addBlockToBuf key bytes s = Inr (RC_BLOCK_ADD_FAILED_DUPLICATE, s, setBufInfo s)"
  using assms by (simp add: addBlockToBuf_def findBlockInMap_def)

text \<open>
  C7. A second add of a key whose record is live and not delete-pending is rejected with
  \<open>RC_BLOCK_ADD_FAILED_DUPLICATE\<close>, changes nothing and reports the current statistics;
  but the dump that follows does not always show the bytes first added under the key.
  In a region of 4 bytes, after adding 100 = [1, 2] and 200 = [3, 4], deleting 200,
  adding 300 = [5, 6] and deleting 300, the add of 100 = [9, 9] is rejected as a
  duplicate, the only block left is 100, and the dump is [5, 6], the bytes of the
  deleted block 300: the record of 300 held the offset of block 100, so the compaction
  of the dump moved \<open>bufStart\<close> past the bytes of block 100.
\<close>

theorem C7_dump_after_rejected_add_shows_deleted_block:
  "map_sum id (\<lambda>(outs, s). (drop 5 outs, buf s, map (map_option blockMapKey) (recordsOnList s)))
      (run [Add 100 [1, 2], Add 200 [3, 4], Delete 200, Add 300 [5, 6], Delete 300,
            Add 100 [9, 9], Dump] (initBuf [0, 0, 0, 0]))
   = Inr ([Returned RC_BLOCK_ADD_FAILED_DUPLICATE
             \<lparr> biBufSize = 4, biBufBytesFree = 2, biBufBytesUsed = 2 \<rparr>,
           Printed [5, 6]],
          [1, 2, 5, 6], [Some 100])"
  by (simp add: call_defs observe_defs)

text \<open>
  C3. The offset recorded in a new \<open>BufBlock\<close> is not always the offset the bytes were
  copied to. \<open>addBlockToBuf\<close> reads \<open>blockAddrInBuf\<close> from \<open>bufEnd\<close> before it calls
  \<open>appendBlockToBuf\<close>; when \<open>checkSize\<close> compacts, \<open>bufEnd\<close> moves first. In a region of 4
  bytes holding the blocks 100 = [1, 2] and 200 = [3, 4], after key 200 is deleted the
  add of 300 = [5, 6] succeeds and copies the bytes to offset 2, and the record of 300
  holds offset 0, the offset of block 100.
\<close>

theorem C3_recorded_offset_is_stale:
  "map_sum id (\<lambda>(outs, s). (last outs, buf s, recordOf 100 s, recordOf 300 s))
      (run [Add 100 [1, 2], Add 200 [3, 4], Delete 200, Add 300 [5, 6]] (initBuf [0, 0, 0, 0]))
   = Inr (Returned RC_SUCCESS \<lparr> biBufSize = 4, biBufBytesFree = 0, biBufBytesUsed = 4 \<rparr>,
          [1, 2, 5, 6],
          Some \<lparr> blockInBuf = 0, blockMapKey = 100, blockSize = 2, blockDeletePending = False \<rparr>,
          Some \<lparr> blockInBuf = 0, blockMapKey = 300, blockSize = 2, blockDeletePending = False \<rparr>)"
  by (simp add: call_defs observe_defs)

text \<open>
  C8. Deleting a live key and adding it again does not always leave a dump that shows
  the new bytes in order. In a region of 2 bytes, after adding 100 = [1], deleting 100
  and adding 100 = [2, 3] (which succeeds), the dump is [3, 2]: removing the only block
  moved \<open>bufStart\<close> to offset 1 and left \<open>bufEnd\<close> at 0, the new bytes went to offset 0,
  and the dump starts at \<open>bufStart\<close>. When the deleted block is empty, \<open>compactBuf\<close>
  returns at once because \<open>bufBytesDeletePending\<close> is 0: the second add returns
  \<open>RC_BLOCK_ADD_FAILED_MAP_ERR\<close> and the list holds two records under the key.
\<close>

theorem C8_delete_then_readd_dump_out_of_order:
  "map_sum id fst (run [Add 100 [1], Delete 100, Add 100 [2, 3], Dump] (initBuf [0, 0]))
   = Inr [Returned RC_SUCCESS \<lparr> biBufSize = 2, biBufBytesFree = 1, biBufBytesUsed = 1 \<rparr>,
          Returned RC_SUCCESS \<lparr> biBufSize = 2, biBufBytesFree = 2, biBufBytesUsed = 0 \<rparr>,
          Returned RC_SUCCESS \<lparr> biBufSize = 2, biBufBytesFree = 0, biBufBytesUsed = 2 \<rparr>,
          Printed [3, 2]]
   \<and> map_sum id (\<lambda>(outs, s). (last outs, recordsOnList s))
        (run [Add 100 [], Delete 100, Add 100 [2, 3]] (initBuf [0, 0]))
   = Inr (Returned RC_BLOCK_ADD_FAILED_MAP_ERR
            \<lparr> biBufSize = 2, biBufBytesFree = 0, biBufBytesUsed = 2 \<rparr>,
          [Some \<lparr> blockInBuf = 0, blockMapKey = 100, blockSize = 0, blockDeletePending = True \<rparr>,
           Some \<lparr> blockInBuf = 0, blockMapKey = 100, blockSize = 2, blockDeletePending = False \<rparr>])"
  by (simp add: call_defs observe_defs)

subsection \<open>Append\<close>

text \<open>
  C4. An append of no more than \<open>bufBytesFree\<close> bytes can write outside the region. The
  split into two copies is made only when \<open>bufEnd > bufStart\<close>. In a region of 3
  bytes, after the calls below the ring is empty (\<open>bufBytesFree\<close> is 3) with \<open>bufStart\<close>
  at 2 and \<open>bufEnd\<close> at 1; appending 3 bytes copies all of them to offset 1 in one
  \<open>memmove\<close>, one byte past the end of the region.
\<close>

theorem C4_append_writes_outside_region:
  "(case run [Add 100 [1], Add 200 [2], Delete 100, Dump, Delete 200, Dump] (initBuf [0, 0, 0]) of
      Inl f \<Rightarrow> False
    | Inr (outs, s) \<Rightarrow>
        length [7, 8, 9 :: byte] \<le> bufBytesFree s
        \<and> (bufSize s, length (buf s), bufStart s, bufEnd s) = (3, 3, 2, 1)
        \<and> appendBlockToBuf [7, 8, 9] s = Inl MemFault
        \<and> addBlockToBuf 300 [7, 8, 9] s = Inl MemFault)"
  by (simp add: call_defs)

subsection \<open>Dump\<close>

text \<open>
  C5. A dump is not always the concatenation of the live blocks in insertion order. In
  a region of 2 bytes, after adding 100 = [1], deleting it, dumping, and adding
  200 = [2, 3], the only live block is [2, 3] and the dump is [3, 2]. In a region of 4
  bytes, after adding 100 = [1, 2] and 200 = [3, 4], deleting 200, adding 300 = [5, 6]
  and deleting 300, the only live block is 100 = [1, 2] and the dump is [5, 6], the
  bytes of the deleted block 300. In a region of 6 bytes, when the block removed lies
  before a block that wraps around the end of the region, \<open>bytesToMove\<close> falls below
  zero in \<open>removeBlockFromBuf\<close> and the last \<open>memmove\<close> of the dump's compaction leaves the
  region.
\<close>

theorem C5_dump_is_not_the_live_blocks:
  "map_sum id (\<lambda>(outs, s). (last outs, recordsOnList s))
      (run [Add 100 [1], Delete 100, Dump, Add 200 [2, 3], Dump] (initBuf [0, 0]))
   = Inr (Printed [3, 2],
          [Some \<lparr> blockInBuf = 0, blockMapKey = 200, blockSize = 2, blockDeletePending = False \<rparr>])
   \<and> map_sum id (\<lambda>(outs, s). (last outs, map (map_option blockMapKey) (recordsOnList s)))
        (run [Add 100 [1, 2], Add 200 [3, 4], Delete 200, Add 300 [5, 6], Delete 300, Dump]
           (initBuf [0, 0, 0, 0]))
   = Inr (Printed [5, 6], [Some 100])
   \<and> run [Add 100 [1], Add 200 [2], Add 300 [3, 4], Delete 100, Dump, Add 400 [5, 6, 7],
           Delete 300, Dump] (initBuf [0, 0, 0, 0, 0, 0])
   = Inl MemFault"
  by (simp add: call_defs observe_defs)

subsection \<open>Compaction leaves nothing to compact\<close>

text \<open>
  Gap closing touches the region, the cursors and the counters only.
\<close>

lemma moveBytes_keeps_blocks:
  "moveBytes dst src n s = Inr s1 \<Longrightarrow>
     blockList s1 = blockList s \<and> blockHeap s1 = blockHeap s \<and> blockMap s1 = blockMap s"
  by (auto simp: moveBytes_def Let_def split: sum.splits if_splits)

lemma removeBlockFromBuf_keeps_blocks:
  assumes "removeBlockFromBuf blk blksz s = Inr s1"
  shows "blockList s1 = blockList s \<and> blockHeap s1 = blockHeap s \<and> blockMap s1 = blockMap s"
  using assms unfolding removeBlockFromBuf_def Let_def
  by (auto split: if_splits option.splits sum.splits dest!: moveBytes_keeps_blocks)

text \<open>
  After the walk of \<open>compactBuf\<close> every node left on the list has a record that is not
  delete-pending; on such a list the walk changes nothing.
\<close>

lemma compactLoop_removes_pending:
  assumes "compactLoop ps s = Inr s1"
    and "\<And>q. q \<in> set (blockList s) \<Longrightarrow>
            q \<in> set ps \<or> (\<exists>b. blockHeap s q = Some b \<and> blockDeletePending b = False)"
  shows "\<forall>q \<in> set (blockList s1). \<exists>b. blockHeap s1 q = Some b \<and> blockDeletePending b = False"
  using assms
proof (induction ps arbitrary: s)
  case Nil
  then show ?case by auto
next
  case (Cons p ps)
  from Cons.prems(1) obtain b where b: "blockHeap s p = Some b"
    by (auto split: option.splits)
  show ?case
  proof (cases "blockDeletePending b")
    case False
    with Cons.prems(1) b have loop: "compactLoop ps s = Inr s1" by simp
    show ?thesis
    proof (rule Cons.IH [OF loop])
      fix q assume "q \<in> set (blockList s)"
      from Cons.prems(2) [OF this] b False
      show "q \<in> set ps \<or> (\<exists>b. blockHeap s q = Some b \<and> blockDeletePending b = False)"
        by auto
    qed
  next
    case True
    with Cons.prems(1) b obtain sa where
      rm: "removeBlockFromBuf (blockInBuf b) (blockSize b) s = Inr sa"
      and loop: "compactLoop ps
                  ((snd (deleteBlockFromMap (blockMapKey b) (removeBlockFromList p sa)))
                     \<lparr> blockHeap := (blockHeap (snd (deleteBlockFromMap (blockMapKey b)
                          (removeBlockFromList p sa))))(p := None) \<rparr>) = Inr s1"
      by (auto simp: Let_def split: sum.splits)
    let ?s4 = "(snd (deleteBlockFromMap (blockMapKey b) (removeBlockFromList p sa)))
                     \<lparr> blockHeap := (blockHeap (snd (deleteBlockFromMap (blockMapKey b)
                          (removeBlockFromList p sa))))(p := None) \<rparr>"
    from removeBlockFromBuf_keeps_blocks [OF rm]
    have l4: "blockList ?s4 = removeAll p (blockList s)"
      and h4: "blockHeap ?s4 = (blockHeap s)(p := None)"
      by (auto simp: deleteBlockFromMap_def removeBlockFromList_def split: option.splits)
    show ?thesis
    proof (rule Cons.IH [OF loop])
      fix q assume "q \<in> set (blockList ?s4)"
      then have q: "q \<noteq> p" "q \<in> set (blockList s)" by (auto simp: l4)
      from Cons.prems(2) [OF q(2)] q(1)
      show "q \<in> set ps \<or> (\<exists>b. blockHeap ?s4 q = Some b \<and> blockDeletePending b = False)"
        by (auto simp: h4)
    qed
  qed
qed

lemma compactLoop_clean:
  assumes "\<forall>q \<in> set ps. \<exists>b. blockHeap s q = Some b \<and> blockDeletePending b = False"
  shows "compactLoop ps s = Inr s"
  using assms by (induction ps) auto

text \<open>
  \<open>updateLoop\<close> writes \<open>blockInBuf\<close> only, and only in the nodes it visits; the addresses
  it writes depend on the sizes alone, so a second pass writes the same addresses.
\<close>

lemma updateLoop_outside:
  "updateLoop lpo block ps h = Inr h1 \<Longrightarrow> q \<notin> set ps \<Longrightarrow> h1 q = h q"
  by (induction ps arbitrary: block h) (auto simp: Let_def split: option.splits)

lemma updateLoop_keeps_rest:
  "updateLoop lpo block ps h = Inr h1 \<Longrightarrow>
     map_option (\<lambda>b. b\<lparr> blockInBuf := 0 \<rparr>) (h1 q) = map_option (\<lambda>b. b\<lparr> blockInBuf := 0 \<rparr>) (h q)"
proof (induction ps arbitrary: block h)
  case Nil
  then show ?case by simp
next
  case (Cons p ps)
  from Cons.prems obtain b where b: "h p = Some b"
    and rest: "updateLoop lpo (if block + blockSize b \<ge> lpo then block + blockSize b - lpo
                               else block + blockSize b) ps
                 (h(p \<mapsto> b\<lparr> blockInBuf := block \<rparr>)) = Inr h1"
    by (auto simp: Let_def split: option.splits)
  from Cons.IH [OF rest] b show ?case
    by (cases "q = p") simp_all
qed

lemma updateLoop_replay:
  assumes "updateLoop lpo block ps h = Inr h1"
    and "\<And>q. map_option (\<lambda>b. b\<lparr> blockInBuf := 0 \<rparr>) (g q)
               = map_option (\<lambda>b. b\<lparr> blockInBuf := 0 \<rparr>) (h q)"
    and "\<And>q. q \<notin> set ps \<Longrightarrow> g q = h1 q"
  shows "updateLoop lpo block ps g = Inr h1"
  using assms
proof (induction ps arbitrary: block h g)
  case Nil
  then show ?case by auto
next
  case (Cons p ps)
  from Cons.prems(1) obtain b where b: "h p = Some b"
    and rest: "updateLoop lpo (if block + blockSize b \<ge> lpo then block + blockSize b - lpo
                               else block + blockSize b) ps
                 (h(p \<mapsto> b\<lparr> blockInBuf := block \<rparr>)) = Inr h1"
    by (auto simp: Let_def split: option.splits)
  from Cons.prems(2) [of p] b obtain c where c: "g p = Some c"
    and cb: "c\<lparr> blockInBuf := 0 \<rparr> = b\<lparr> blockInBuf := 0 \<rparr>"
    by (cases "g p") auto
  from cb have sz: "blockSize c = blockSize b"
    by (cases b, cases c) simp
  from cb have upd: "c\<lparr> blockInBuf := block \<rparr> = b\<lparr> blockInBuf := block \<rparr>"
    by (cases b, cases c) simp
  have "updateLoop lpo (if block + blockSize b \<ge> lpo then block + blockSize b - lpo
                        else block + blockSize b) ps
          (g(p \<mapsto> b\<lparr> blockInBuf := block \<rparr>)) = Inr h1"
  proof (rule Cons.IH [OF rest])
    fix q
    show "map_option (\<lambda>b. b\<lparr> blockInBuf := 0 \<rparr>) ((g(p \<mapsto> b\<lparr> blockInBuf := block \<rparr>)) q)
            = map_option (\<lambda>b. b\<lparr> blockInBuf := 0 \<rparr>) ((h(p \<mapsto> b\<lparr> blockInBuf := block \<rparr>)) q)"
      using Cons.prems(2) [of q] by simp
  next
    fix q assume q: "q \<notin> set ps"
    show "(g(p \<mapsto> b\<lparr> blockInBuf := block \<rparr>)) q = h1 q"
    proof (cases "q = p")
      case True
      with updateLoop_outside [OF rest q] show ?thesis by simp
    next
      case False
      with q Cons.prems(3) [of q] show ?thesis by simp
    qed
  qed
  with c sz upd show ?case
    by (simp add: Let_def)
qed

lemma updateLoop_idem:
  assumes "updateLoop lpo block ps h = Inr h1"
  shows "updateLoop lpo block ps h1 = Inr h1"
  by (rule updateLoop_replay [OF assms]) (simp_all add: updateLoop_keeps_rest [OF assms])

lemma compactBuf_idem:
  assumes "compactBuf s = Inr s1"
  shows "compactBuf s1 = Inr s1"
proof (cases "bufBytesDeletePending s = 0")
  case True
  with assms show ?thesis by (simp add: compactBuf_def)
next
  case False
  with assms obtain s0 h1 where
    loop: "compactLoop (rev (blockList s)) s = Inr s0"
    and upd: "updateLoop (bufSize s0) (bufStart s0) (blockList s0) (blockHeap s0) = Inr h1"
    and s1: "s1 = s0\<lparr> blockHeap := h1 \<rparr>"
    by (auto simp: compactBuf_def updateBufBlockList_def split: sum.splits)
  have clean0: "\<forall>q \<in> set (blockList s0). \<exists>b. blockHeap s0 q = Some b \<and> blockDeletePending b = False"
    by (rule compactLoop_removes_pending [OF loop]) simp
  have clean1: "\<forall>q \<in> set (rev (blockList s1)). \<exists>b. blockHeap s1 q = Some b \<and> blockDeletePending b = False"
  proof
    fix q assume "q \<in> set (rev (blockList s1))"
    with s1 have "q \<in> set (blockList s0)" by simp
    with clean0 obtain b where b: "blockHeap s0 q = Some b" "blockDeletePending b = False"
      by auto
    from updateLoop_keeps_rest [OF upd, of q] b(1) obtain c where
      c: "h1 q = Some c" and cb: "c\<lparr> blockInBuf := 0 \<rparr> = b\<lparr> blockInBuf := 0 \<rparr>"
      by (cases "h1 q") auto
    from cb b(2) have "blockDeletePending c = False"
      by (cases b, cases c) simp
    with c s1 show "\<exists>b. blockHeap s1 q = Some b \<and> blockDeletePending b = False"
      by simp
  qed
  have again: "compactLoop (rev (blockList s1)) s1 = Inr s1"
    by (rule compactLoop_clean [OF clean1])
  from updateLoop_idem [OF upd] s1 have "updateBufBlockList s1 = Inr s1"
    by (simp add: updateBufBlockList_def)
  with again show ?thesis
    by (simp add: compactBuf_def)
qed

text \<open>
  Whenever a dump completes, a second dump straight after it emits the same bytes and
  leaves the state as the first dump left it: the compaction of the second dump changes
  nothing, whether it returns at once or walks the list again.
\<close>

lemma second_dump_repeats_first:
  assumes "printBuf s = Inr (out, s1)"
  shows "printBuf s1 = Inr (out, s1)
         \<and> run [Dump, Dump] s = Inr ([Printed out, Printed out], s1)"
proof -
  from assms have c: "compactBuf s = Inr s1"
    by (auto simp: printBuf_def Let_def split: sum.splits if_splits)
  from compactBuf_idem [OF c] assms c have "printBuf s1 = Inr (out, s1)"
    by (simp add: printBuf_def)
  with assms show ?thesis
    by simp
qed

text \<open>
  C9. Two dumps in a row do not yield identical bytes from every state, and the first
  dump does not always bring \<open>bufBytesDeletePending\<close> to zero. After a key was deleted
  twice the counter is still 2 after the dump, so the compaction of the next dump does
  not return at once. From a reachable state of a region of 6 bytes, in which the block
  to remove lies before a block that wraps, the dump yields no bytes at all: its
  compaction stops in a memory fault.
\<close>

theorem C9_pending_not_zero_after_dump:
  "map_sum id (bufBytesDeletePending \<circ> snd)
     (run [Add 100 [1, 2], Delete 100, Delete 100, Dump] (initBuf [0, 0, 0, 0]))
   = Inr 2
   \<and> map_sum id (printBuf \<circ> snd)
     (run [Add 100 [1], Add 200 [2], Add 300 [3, 4], Delete 100, Dump, Add 400 [5, 6, 7],
           Delete 300] (initBuf [0, 0, 0, 0, 0, 0]))
   = Inr (Inl MemFault)"
  by (simp add: call_defs)

end
